theory Spec2Isabelle
  imports Main
begin

section \<open>Data model\<close>

text \<open>
  The rows of the persistence layer that \<^verbatim>\<open>api/controllers/console/auth/oauth.py\<close>
  reads and writes. Primary keys (UUIDs in the source) are natural numbers. Every field
  name carries the name of its table, since a record field is a global constant.
\<close>

datatype AccountStatus = PENDING | ACTIVE | BANNED

record Account =
  account_id :: nat
  account_email :: string
  account_name :: string
  account_status :: AccountStatus
  interface_language :: string
  current_tenant :: "nat option"
  initialized_at :: "nat option"

record Tenant =
  tenant_id :: nat
  tenant_name :: string
  casdoor_org_id :: "string option"
  parent_id :: "nat option"
  tenant_plan :: string
  tenant_status :: string

record CasdoorOrganizationMapping =
  mapping_casdoor_org_id :: string
  mapping_tenant_id :: nat

record TenantAccountJoin =
  join_tenant_id :: nat
  join_account_id :: nat
  join_role :: string

record AccountIntegrate =
  integrate_provider :: string
  integrate_open_id :: string
  integrate_account_id :: nat

text \<open>
  \<^verbatim>\<open>OAuthUserInfo\<close> as the controller reads it: \<^verbatim>\<open>id\<close>, \<^verbatim>\<open>name\<close>, \<^verbatim>\<open>email\<close> and
  \<^verbatim>\<open>organizations\<close>. The source tests \<^verbatim>\<open>organizations\<close> and \<^verbatim>\<open>name\<close> by truthiness only,
  so a missing list is the empty list and a missing name is the empty string.
\<close>

record OAuthUserInfo =
  user_id :: string
  user_name :: string
  user_email :: string
  organizations :: "string list"

text \<open>
  The database, one list per table in insertion order, together with the two effects
  that leave the process: the authorization codes sent to the OAuth provider and the
  sessions issued by \<^verbatim>\<open>AccountService.login\<close>.
\<close>

record db =
  accounts :: "Account list"
  tenants :: "Tenant list"
  mappings :: "CasdoorOrganizationMapping list"
  joins :: "TenantAccountJoin list"
  integrates :: "AccountIntegrate list"
  provider_requests :: "(string \<times> string) list"
  sessions :: "nat list"

section \<open>Python string operations\<close>

text \<open>\<^verbatim>\<open>s.split(c)\<close>: the pieces between the occurrences of \<open>c\<close>; never an empty list.\<close>

fun split_sep :: "char \<Rightarrow> string \<Rightarrow> string list" where
  "split_sep c [] = [ [] ]"
| "split_sep c (x # xs) =
     (if x = c then [] # split_sep c xs
      else (case split_sep c xs of
              [] \<Rightarrow> [ [x] ]
            | w # ws \<Rightarrow> (x # w) # ws))"

text \<open>\<^verbatim>\<open>sep.join(parts)\<close>.\<close>

fun join_sep :: "string \<Rightarrow> string list \<Rightarrow> string" where
  "join_sep s [] = []"
| "join_sep s [x] = x"
| "join_sep s (x # y # ys) = x @ s @ join_sep s (y # ys)"

text \<open>\<^verbatim>\<open>root_org, child_org_part = org.split('/', 1)\<close>, used where \<^verbatim>\<open>'/' in org\<close> holds.\<close>

definition root_org_of :: "string \<Rightarrow> string" where
  "root_org_of org = takeWhile (\<lambda>c. c \<noteq> CHR ''/'') org"

definition child_org_part_of :: "string \<Rightarrow> string" where
  "child_org_part_of org = drop 1 (dropWhile (\<lambda>c. c \<noteq> CHR ''/'') org)"

section \<open>Queries and collaborators of the tenant service\<close>

text \<open>
  \<^verbatim>\<open>db.session.flush()\<close> after \<^verbatim>\<open>db.session.add(Tenant(...))\<close> assigns the new row its
  primary key. The key is one that no tenant, mapping or membership row mentions.
\<close>

definition max_list :: "nat list \<Rightarrow> nat" where
  "max_list xs = fold max xs 0"

definition new_tenant_id :: "db \<Rightarrow> nat" where
  "new_tenant_id d =
     Suc (max_list (map tenant_id (tenants d) @ map mapping_tenant_id (mappings d)
                    @ map join_tenant_id (joins d)))"

text \<open>\<^verbatim>\<open>db.session.query(Tenant).filter_by(id=tenant_id).first()\<close>.\<close>

definition tenant_by_id :: "nat \<Rightarrow> db \<Rightarrow> Tenant option" where
  "tenant_by_id tid d = find (\<lambda>t. tenant_id t = tid) (tenants d)"

definition account_by_id :: "nat \<Rightarrow> db \<Rightarrow> Account option" where
  "account_by_id aid d = find (\<lambda>a. account_id a = aid) (accounts d)"

text \<open>
  The controller holds an \<^verbatim>\<open>Account\<close> object; the model holds its primary key and reads
  and writes the row. \<^verbatim>\<open>account.current_tenant\<close> and \<^verbatim>\<open>account.current_tenant = t\<close>:
\<close>

definition current_tenant_of :: "nat \<Rightarrow> db \<Rightarrow> nat option" where
  "current_tenant_of aid d =
     (case account_by_id aid d of None \<Rightarrow> None | Some a \<Rightarrow> current_tenant a)"

definition set_current_tenant :: "nat \<Rightarrow> nat \<Rightarrow> db \<Rightarrow> db" where
  "set_current_tenant aid tid d =
     d\<lparr>accounts := map (\<lambda>a. if account_id a = aid then a\<lparr>current_tenant := Some tid\<rparr> else a)
                        (accounts d)\<rparr>"

text \<open>
  Modelled from the spec: \<^verbatim>\<open>TenantService.get_join_tenants\<close> is not among the sources.
  Section 4.3 attaches the account "if not already a member", so the call returns the
  tenants in which the account has a membership, in table order.
\<close>

definition get_join_tenants :: "nat \<Rightarrow> db \<Rightarrow> Tenant list" where
  "get_join_tenants aid d =
     filter (\<lambda>t. (tenant_id t, aid) \<in> set (map (\<lambda>j. (join_tenant_id j, join_account_id j)) (joins d)))
            (tenants d)"

text \<open>
  Modelled from the spec: \<^verbatim>\<open>TenantService.create_tenant_member\<close> is not among the sources.
  Section 3 has a membership "created when an account is attached to a tenant level", the
  pair (tenant, account) unique and "duplicate attachment attempts must be no-ops".
\<close>

definition create_tenant_member :: "Tenant \<Rightarrow> nat \<Rightarrow> string \<Rightarrow> db \<Rightarrow> db" where
  "create_tenant_member t aid r d =
     (if (tenant_id t, aid) \<in> set (map (\<lambda>j. (join_tenant_id j, join_account_id j)) (joins d))
      then d
      else d\<lparr>joins := joins d @
                 [\<lparr>join_tenant_id = tenant_id t, join_account_id = aid, join_role = r\<rparr>]\<rparr>)"

section \<open>Organization synchronization\<close>

text \<open>
  \<^verbatim>\<open>org_to_tenant = {m.casdoor_org_id: m.tenant_id for m in existing_mappings}\<close>: a later
  row of the table overwrites an earlier one with the same key.
\<close>

definition org_to_tenant_of :: "CasdoorOrganizationMapping list \<Rightarrow> (string \<rightharpoonup> nat)" where
  "org_to_tenant_of ms =
     map_of (rev (map (\<lambda>m. (mapping_casdoor_org_id m, mapping_tenant_id m)) ms))"


definition org_tenant :: "nat \<Rightarrow> string \<Rightarrow> string \<Rightarrow> nat option \<Rightarrow> Tenant" where
  "org_tenant tid nm key parent =
     \<lparr>tenant_id = tid, tenant_name = nm, casdoor_org_id = Some key, parent_id = parent,
      tenant_plan = ''basic'', tenant_status = ''normal''\<rparr>"

definition org_mapping :: "string \<Rightarrow> nat \<Rightarrow> CasdoorOrganizationMapping" where
  "org_mapping key tid = \<lparr>mapping_casdoor_org_id = key, mapping_tenant_id = tid\<rparr>"

definition add_tenant :: "string \<Rightarrow> string \<Rightarrow> nat option \<Rightarrow> db \<Rightarrow> db" where
  "add_tenant key nm parent d =
     d\<lparr>tenants := tenants d @ [org_tenant (new_tenant_id d) nm key parent],
       mappings := mappings d @ [org_mapping key (new_tenant_id d)]\<rparr>"

definition ensure_tenant ::
  "string \<Rightarrow> string \<Rightarrow> nat option \<Rightarrow> (string \<rightharpoonup> nat) \<times> db \<Rightarrow> nat \<times> (string \<rightharpoonup> nat) \<times> db" where
  "ensure_tenant key nm parent = (\<lambda>(o2t, d).
     (case o2t key of
        Some tid \<Rightarrow> (tid, o2t, d)
      | None \<Rightarrow> (new_tenant_id d, o2t(key \<mapsto> new_tenant_id d), add_tenant key nm parent d)))"

text \<open>
  Lines 281-285 and 316-320: attach the account as owner unless the id is already in
  \<^verbatim>\<open>user_tenant_ids\<close> or no tenant row has it.
\<close>

definition attach_owner :: "nat \<Rightarrow> nat \<Rightarrow> nat list \<times> db \<Rightarrow> nat list \<times> db" where
  "attach_owner aid tid = (\<lambda>(uti, d).
     if tid \<in> set uti then (uti, d)
     else (case tenant_by_id tid d of
             None \<Rightarrow> (uti, d)
           | Some t \<Rightarrow> (uti @ [tid], create_tenant_member t aid ''owner'' d)))"

text \<open>\<^verbatim>\<open>full_org_path = f"{root_org}/{'-'.join(org_path_parts[:i+1])}"\<close>.\<close>

definition full_org_path :: "string \<Rightarrow> string list \<Rightarrow> nat \<Rightarrow> string" where
  "full_org_path root parts i = root @ ''/'' @ join_sep ''-'' (take (Suc i) parts)"

text \<open>
  One round of the loop over \<^verbatim>\<open>enumerate(org_path_parts)\<close> (lines 244-277). The state is
  \<^verbatim>\<open>org_to_tenant\<close>, the database, \<^verbatim>\<open>current_parent_tenant_id\<close> and
  \<^verbatim>\<open>all_level_tenant_ids\<close>.
\<close>

definition level_step ::
  "string \<Rightarrow> string list \<Rightarrow> nat \<times> string \<Rightarrow>
   (string \<rightharpoonup> nat) \<times> db \<times> nat \<times> nat list \<Rightarrow> (string \<rightharpoonup> nat) \<times> db \<times> nat \<times> nat list" where
  "level_step root parts = (\<lambda>(i, part) (o2t, d, parent, levels).
     (case ensure_tenant (full_org_path root parts i) part (Some parent) (o2t, d) of
        (tid, o2t', d') \<Rightarrow> (o2t', d', tid, levels @ [tid])))"

text \<open>
  The body of the loop over \<^verbatim>\<open>user_info.organizations\<close> (lines 199-320). The state is
  \<^verbatim>\<open>org_to_tenant\<close>, \<^verbatim>\<open>user_tenant_ids\<close> and the database. Every organization is a string
  here, so \<^verbatim>\<open>isinstance(org, str)\<close> holds.
\<close>

definition sync_org ::
  "nat \<Rightarrow> string \<Rightarrow> (string \<rightharpoonup> nat) \<times> nat list \<times> db \<Rightarrow> (string \<rightharpoonup> nat) \<times> nat list \<times> db" where
  "sync_org aid org = (\<lambda>(o2t, uti, d).
     if org = [] then (o2t, uti, d)
     else if CHR ''/'' \<in> set org then
       (let root = root_org_of org;
            parts = split_sep CHR ''-'' (child_org_part_of org)
        in case ensure_tenant root root None (o2t, d) of
             (root_tid, o2t1, d1) \<Rightarrow>
               (case fold (level_step root parts) (enumerate 0 parts) (o2t1, d1, root_tid, [root_tid]) of
                  (o2t2, d2, parent, levels) \<Rightarrow>
                    (case fold (attach_owner aid) levels (uti, d2) of
                       (uti', d3) \<Rightarrow> (o2t2, uti', d3))))
     else
       (case ensure_tenant org org None (o2t, d) of
          (tid, o2t1, d1) \<Rightarrow>
            (case attach_owner aid tid (uti, d1) of
               (uti', d2) \<Rightarrow> (o2t1, uti', d2))))"

text \<open>Lines 195-196: \<^verbatim>\<open>user_tenant_ids = [tenant.id for tenant in user_tenants]\<close>.\<close>

definition join_ids :: "nat \<Rightarrow> db \<Rightarrow> nat list" where
  "join_ids aid d = map tenant_id (get_join_tenants aid d)"

text \<open>
  Lines 323-326: an account without a current tenant gets the tenant of the first entry of
  \<^verbatim>\<open>user_tenant_ids\<close>, when the list has an entry and a tenant row has that id.
\<close>

definition select_first_tenant :: "nat \<Rightarrow> nat list \<Rightarrow> db \<Rightarrow> db" where
  "select_first_tenant aid uti d =
     (if current_tenant_of aid d \<noteq> None then d
      else
        (case uti of
           [] \<Rightarrow> d
         | first # rest \<Rightarrow>
             (case tenant_by_id first d of
                None \<Rightarrow> d
              | Some t \<Rightarrow> set_current_tenant aid (tenant_id t) d)))"

text \<open>
  \<^verbatim>\<open>_sync_user_organizations(account, user_info)\<close> (an Isabelle name cannot start with an
  underscore). The final \<^verbatim>\<open>db.session.commit()\<close> makes the writes above durable and changes
  no row.
\<close>

definition sync_user_organizations :: "nat \<Rightarrow> OAuthUserInfo \<Rightarrow> db \<Rightarrow> db" where
  "sync_user_organizations aid ui d =
     (if organizations ui = [] then d
      else
        (case fold (sync_org aid) (organizations ui)
                (org_to_tenant_of (mappings d), join_ids aid d, d) of
           (o2t, uti, d') \<Rightarrow> select_first_tenant aid uti d'))"

section \<open>Identity lookup\<close>

datatype error =
    MultipleResultsFound
  | AccountNotFoundError
  | WorkSpaceNotFoundError
  | WorkSpaceNotAllowedCreateError
  | AccountRegisterError string
  | Unauthorized

text \<open>
  Modelled from the spec: \<^verbatim>\<open>Account.get_by_openid\<close> is not among the sources. Section 4.1
  has the lookup go "by (provider, external_id) via a provider-link index": the first link
  row for the pair, then the account row it names.
\<close>

definition get_by_openid :: "string \<Rightarrow> string \<Rightarrow> db \<Rightarrow> Account option" where
  "get_by_openid provider open_id d =
     (case find (\<lambda>i. integrate_provider i = provider \<and> integrate_open_id i = open_id)
                (integrates d) of
        None \<Rightarrow> None
      | Some i \<Rightarrow> account_by_id (integrate_account_id i) d)"

text \<open>
  \<^verbatim>\<open>_get_account_by_openid_or_email\<close> (lines 170-177). \<^verbatim>\<open>scalar_one_or_none()\<close> returns the
  single row, nothing when there is none, and raises \<^verbatim>\<open>MultipleResultsFound\<close> when
  several rows match.
\<close>

definition get_account_by_openid_or_email ::
  "string \<Rightarrow> OAuthUserInfo \<Rightarrow> db \<Rightarrow> error + Account option" where
  "get_account_by_openid_or_email provider ui d =
     (case get_by_openid provider (user_id ui) d of
        Some a \<Rightarrow> Inr (Some a)
      | None \<Rightarrow>
          (case filter (\<lambda>a. account_email a = user_email ui) (accounts d) of
             [] \<Rightarrow> Inr None
           | [a] \<Rightarrow> Inr (Some a)
           | a # b # rest \<Rightarrow> Inl MultipleResultsFound))"

section \<open>The request and the external services\<close>

text \<open>
  What one callback request reads from outside the database: the configuration, the
  query arguments, the OAuth provider client, the invitation, feature and billing
  services, the request's language preference and the clock. \<open>oauth_exchange\<close> is
  \<^verbatim>\<open>get_access_token\<close> followed by \<^verbatim>\<open>get_user_info\<close>, with \<open>None\<close> for an
  \<^verbatim>\<open>httpx.RequestError\<close>. \<open>get_invitation_by_token\<close> gives \<open>None\<close> for a missing or
  empty invitation and otherwise the invitation's \<^verbatim>\<open>email\<close> entry, if it has one.
  The list \<^verbatim>\<open>languages\<close> of \<^verbatim>\<open>constants/languages.py\<close> is not among the sources; it is a
  parameter, given by its first element and the rest.
\<close>

record env =
  github_configured :: bool
  casdoor_configured :: bool
  arg_code :: "string option"
  arg_state :: "string option"
  oauth_exchange :: "string \<Rightarrow> string \<Rightarrow> OAuthUserInfo option"
  is_valid_invite_token :: "string \<Rightarrow> bool"
  get_invitation_by_token :: "string \<Rightarrow> string option option"
  is_allow_register :: bool
  is_allow_create_workspace :: bool
  BILLING_ENABLED :: bool
  is_email_in_freeze :: "string \<Rightarrow> bool"
  best_match_language :: "string option"
  first_language :: string
  more_languages :: "string list"
  naive_utc_now :: nat

text \<open>\<^verbatim>\<open>get_oauth_providers().get(provider)\<close> is truthy (lines 34-54 and 92-96).\<close>

definition oauth_provider_configured :: "env \<Rightarrow> string \<Rightarrow> bool" where
  "oauth_provider_configured e provider =
     (if provider = ''github'' then github_configured e
      else if provider = ''casdoor'' then casdoor_configured e
      else False)"

section \<open>Account provisioning\<close>

text \<open>
  Modelled from the spec: \<^verbatim>\<open>AccountService.link_account_integrate\<close> is not among the
  sources. Section 4.2 links the account to (provider, external_id) and requires the link
  to be idempotent: a link row that is already there is not added again.
\<close>

definition link_account_integrate :: "string \<Rightarrow> string \<Rightarrow> nat \<Rightarrow> db \<Rightarrow> db" where
  "link_account_integrate provider open_id aid d =
     (let row = \<lparr>integrate_provider = provider, integrate_open_id = open_id,
                 integrate_account_id = aid\<rparr>
      in if row \<in> set (integrates d) then d
         else d\<lparr>integrates := integrates d @ [row]\<rparr>)"

definition new_account_id :: "db \<Rightarrow> nat" where
  "new_account_id d =
     Suc (max_list (map account_id (accounts d) @ map join_account_id (joins d)
                    @ map integrate_account_id (integrates d)))"

text \<open>
  Modelled from the spec: \<^verbatim>\<open>RegisterService.register\<close> is not among the sources. Section
  4.2: on success an Account is created, its status promoted at once, and linked to the
  external identity. The interface language is assigned by the caller.
\<close>

definition register :: "string \<Rightarrow> string \<Rightarrow> string \<Rightarrow> string \<Rightarrow> db \<Rightarrow> nat \<times> db" where
  "register em nm open_id provider d =
     (let aid = new_account_id d;
          a = \<lparr>account_id = aid, account_email = em, account_name = nm,
               account_status = ACTIVE, interface_language = [],
               current_tenant = None, initialized_at = None\<rparr>
      in (aid, link_account_integrate provider open_id aid (d\<lparr>accounts := accounts d @ [a]\<rparr>)))"

text \<open>
  Modelled from the spec: \<^verbatim>\<open>TenantService.create_tenant\<close> is not among the sources.
  Section 4.4 has a "default personal tenant" created: a tenant of the given name with
  no parent and no organization key.
\<close>

definition create_tenant :: "string \<Rightarrow> db \<Rightarrow> Tenant \<times> db" where
  "create_tenant nm d =
     (let t = \<lparr>tenant_id = new_tenant_id d, tenant_name = nm, casdoor_org_id = None,
               parent_id = None, tenant_plan = ''basic'', tenant_status = ''normal''\<rparr>
      in (t, d\<lparr>tenants := tenants d @ [t]\<rparr>))"

definition set_interface_language :: "nat \<Rightarrow> string \<Rightarrow> db \<Rightarrow> db" where
  "set_interface_language aid lang d =
     d\<lparr>accounts := map (\<lambda>a. if account_id a = aid then a\<lparr>interface_language := lang\<rparr> else a)
                        (accounts d)\<rparr>"

text \<open>Lines 363-367: the language of a new account.\<close>

definition choose_interface_language :: "env \<Rightarrow> string" where
  "choose_interface_language e =
     (case best_match_language e of
        None \<Rightarrow> first_language e
      | Some l \<Rightarrow> if l \<noteq> [] \<and> l \<in> set (first_language e # more_languages e) then l
                  else first_language e)"

text \<open>
  Lines 371-377, the common end of \<^verbatim>\<open>_generate_account\<close>: link the identity, synchronize
  the organizations, return the account.
\<close>

definition link_and_sync :: "string \<Rightarrow> OAuthUserInfo \<Rightarrow> nat \<Rightarrow> db \<Rightarrow> (error + nat) \<times> db" where
  "link_and_sync provider ui aid d =
     (Inr aid, sync_user_organizations aid ui (link_account_integrate provider (user_id ui) aid d))"

text \<open>Lines 350-353: the description of the freeze-list error.\<close>

definition freeze_message :: string where
  "freeze_message =
     ''This email account has been deleted within the past '' @
     ''30 days and is temporarily unavailable for new account registration''"

text \<open>
  \<^verbatim>\<open>_generate_account\<close> (lines 331-377). An exception leaves the function with the
  database as it is at the raise. The signal \<^verbatim>\<open>tenant_was_created.send\<close> has no receiver
  among the sources and changes nothing here.
\<close>

definition generate_account :: "env \<Rightarrow> string \<Rightarrow> OAuthUserInfo \<Rightarrow> db \<Rightarrow> (error + nat) \<times> db" where
  "generate_account e provider ui d =
     (case get_account_by_openid_or_email provider ui d of
        Inl err \<Rightarrow> (Inl err, d)
      | Inr (Some a) \<Rightarrow>
          (if get_join_tenants (account_id a) d = [] then
             (if \<not> is_allow_create_workspace e then (Inl WorkSpaceNotAllowedCreateError, d)
              else
                (case create_tenant (account_name a @ [CHR 0x27] @ ''s Workspace'') d of
                   (new_tenant, d1) \<Rightarrow>
                     link_and_sync provider ui (account_id a)
                       (set_current_tenant (account_id a) (tenant_id new_tenant)
                          (create_tenant_member new_tenant (account_id a) ''owner'' d1))))
           else link_and_sync provider ui (account_id a) d)
      | Inr None \<Rightarrow>
          (if \<not> is_allow_register e then
             (if BILLING_ENABLED e \<and> is_email_in_freeze e (user_email ui) then
                (Inl (AccountRegisterError freeze_message), d)
              else (Inl (AccountRegisterError ''Invalid email or password''), d))
           else
             (case register (user_email ui) (if user_name ui = [] then ''Dify'' else user_name ui)
                     (user_id ui) provider d of
                (aid, d1) \<Rightarrow>
                  link_and_sync provider ui aid
                    (set_interface_language aid (choose_interface_language e) d1))))"

section \<open>The callback endpoint\<close>

text \<open>
  A response is a JSON error with status 400, a redirect below \<^verbatim>\<open>CONSOLE_WEB_URL\<close> (the
  string is the path and query after that prefix), the redirect to the console with the
  session cookies of an account, or an exception that no handler of the endpoint catches.
\<close>

datatype response =
    Json400 string
  | Redirect string
  | LoginRedirect nat
  | Unhandled error

definition account_status_of :: "nat \<Rightarrow> db \<Rightarrow> AccountStatus option" where
  "account_status_of aid d = map_option account_status (account_by_id aid d)"

text \<open>Lines 142-145: first-login activation.\<close>

definition activate :: "nat \<Rightarrow> nat \<Rightarrow> db \<Rightarrow> db" where
  "activate aid now d =
     d\<lparr>accounts := map (\<lambda>a. if account_id a = aid
                              then a\<lparr>account_status := ACTIVE, initialized_at := Some now\<rparr> else a)
                        (accounts d)\<rparr>"

text \<open>
  Modelled from the spec: \<^verbatim>\<open>TenantService.create_owner_tenant_if_not_exist\<close> is not among
  the sources. Section 4.4: an account with no membership at all gets a default personal
  tenant when workspace creation is allowed, and is refused otherwise.
\<close>

definition create_owner_tenant_if_not_exist :: "env \<Rightarrow> nat \<Rightarrow> db \<Rightarrow> error + db" where
  "create_owner_tenant_if_not_exist e aid d =
     (if aid \<in> set (map join_account_id (joins d)) then Inr d
      else if \<not> is_allow_create_workspace e then Inl WorkSpaceNotAllowedCreateError
      else
        (case create_tenant
                ((case account_by_id aid d of None \<Rightarrow> [] | Some a \<Rightarrow> account_name a)
                 @ [CHR 0x27] @ ''s Workspace'') d of
           (t, d1) \<Rightarrow>
             Inr (set_current_tenant aid (tenant_id t) (create_tenant_member t aid ''owner'' d1))))"

text \<open>
  Modelled from the spec: \<^verbatim>\<open>AccountService.login\<close> is not among the sources. Section 6: it
  issues the session of an account; the tokens are opaque.
\<close>

definition login :: "nat \<Rightarrow> db \<Rightarrow> db" where
  "login aid d = d\<lparr>sessions := sessions d @ [aid]\<rparr>"

definition workspace_not_found_message :: string where
  "workspace_not_found_message =
     ''/signin?message=Workspace not found, please contact system admin to invite you to join in a workspace.''"

text \<open>Lines 138-167: what the endpoint does with the account it has.\<close>

definition complete_login :: "env \<Rightarrow> nat \<Rightarrow> db \<Rightarrow> response \<times> db" where
  "complete_login e aid d =
     (if account_status_of aid d = Some BANNED then
        (Redirect ''/signin?message=Account is banned.'', d)
      else
        (let d1 = (if account_status_of aid d = Some PENDING
                   then activate aid (naive_utc_now e) d else d)
         in case create_owner_tenant_if_not_exist e aid d1 of
              Inl Unauthorized \<Rightarrow> (Redirect ''/signin?message=Workspace not found.'', d1)
            | Inl WorkSpaceNotAllowedCreateError \<Rightarrow> (Redirect workspace_not_found_message, d1)
            | Inl err \<Rightarrow> (Unhandled err, d1)
            | Inr d2 \<Rightarrow> (LoginRedirect aid, login aid d2)))"

text \<open>Lines 117-124: the invitation branch, entered with a valid invite token.\<close>

definition invite_redirect :: "env \<Rightarrow> string \<Rightarrow> OAuthUserInfo \<Rightarrow> response" where
  "invite_redirect e invite_token ui =
     (case get_invitation_by_token e invite_token of
        None \<Rightarrow> Redirect (''/signin/invite-settings?invite_token='' @ invite_token)
      | Some invitation_email \<Rightarrow>
          (if invitation_email \<noteq> Some (user_email ui)
           then Redirect ''/signin?message=Invalid invitation token.''
           else Redirect (''/signin/invite-settings?invite_token='' @ invite_token)))"

text \<open>Lines 126-136: \<^verbatim>\<open>_generate_account\<close> under the handlers of the endpoint.\<close>

definition account_error_response :: "error \<Rightarrow> response" where
  "account_error_response err =
     (case err of
        AccountNotFoundError \<Rightarrow> Redirect ''/signin?message=Account not found.''
      | WorkSpaceNotFoundError \<Rightarrow> Redirect workspace_not_found_message
      | WorkSpaceNotAllowedCreateError \<Rightarrow> Redirect workspace_not_found_message
      | AccountRegisterError description \<Rightarrow> Redirect (''/signin?message='' @ description)
      | MultipleResultsFound \<Rightarrow> Unhandled MultipleResultsFound
      | Unauthorized \<Rightarrow> Unhandled Unauthorized)"

text \<open>
  \<^verbatim>\<open>OAuthCallback.get\<close> (lines 91-167). A query argument that is missing and one that is
  empty are both falsy, so \<open>code_of\<close> and \<open>invite_token_of\<close> give the empty string for
  either. The call of \<^verbatim>\<open>get_access_token\<close> is recorded in \<open>provider_requests\<close> before its
  outcome is known.
\<close>

definition code_of :: "env \<Rightarrow> string" where
  "code_of e = (case arg_code e of None \<Rightarrow> [] | Some c \<Rightarrow> c)"

definition invite_token_of :: "env \<Rightarrow> string" where
  "invite_token_of e = (case arg_state e of None \<Rightarrow> [] | Some s \<Rightarrow> s)"

definition record_request :: "string \<Rightarrow> string \<Rightarrow> db \<Rightarrow> db" where
  "record_request provider code d =
     d\<lparr>provider_requests := provider_requests d @ [(provider, code)]\<rparr>"

definition OAuthCallback_get :: "env \<Rightarrow> string \<Rightarrow> db \<Rightarrow> response \<times> db" where
  "OAuthCallback_get e provider d =
     (if \<not> oauth_provider_configured e provider then (Json400 ''Invalid provider'', d)
      else if code_of e = [] then (Json400 ''Authorization code is required'', d)
      else
        (let d1 = record_request provider (code_of e) d
         in case oauth_exchange e provider (code_of e) of
              None \<Rightarrow> (Json400 ''OAuth process failed'', d1)
            | Some ui \<Rightarrow>
                (if invite_token_of e \<noteq> [] \<and> is_valid_invite_token e (invite_token_of e)
                 then (invite_redirect e (invite_token_of e) ui, d1)
                 else
                   (case generate_account e provider ui d1 of
                      (Inl err, d2) \<Rightarrow> (account_error_response err, d2)
                    | (Inr aid, d2) \<Rightarrow> complete_login e aid d2))))"

section \<open>Predicates for the synchronization proofs\<close>

text \<open>
  The loop state is \<^verbatim>\<open>org_to_tenant\<close>, \<^verbatim>\<open>user_tenant_ids\<close> and the database. Throughout the
  loop the dictionary is the one the mapping table gives, and the list holds the ids of
  the tenants the account has joined.
\<close>

definition sync_inv :: "nat \<Rightarrow> (string \<rightharpoonup> nat) \<times> nat list \<times> db \<Rightarrow> bool" where
  "sync_inv aid = (\<lambda>(o2t, uti, d).
     o2t = org_to_tenant_of (mappings d) \<and> set uti = set (join_ids aid d))"

text \<open>
  How a later loop state relates to an earlier one: only tenants, mappings and
  memberships are added, a key keeps its tenant, every id appended to
  \<^verbatim>\<open>user_tenant_ids\<close> comes with a new membership row, and a tenant id below the next
  fresh one keeps its row or its lack of one.
\<close>

definition extends ::
  "(string \<rightharpoonup> nat) \<times> nat list \<times> db \<Rightarrow> (string \<rightharpoonup> nat) \<times> nat list \<times> db \<Rightarrow> bool" where
  "extends = (\<lambda>(o2t, uti, d) (o2t', uti', d').
     accounts d' = accounts d \<and> integrates d' = integrates d
     \<and> provider_requests d' = provider_requests d \<and> sessions d' = sessions d
     \<and> o2t \<subseteq>\<^sub>m o2t'
     \<and> (\<exists>js. joins d' = joins d @ js \<and> uti' = uti @ map join_tenant_id js)
     \<and> new_tenant_id d \<le> new_tenant_id d'
     \<and> (\<forall>t<new_tenant_id d. tenant_by_id t d' = tenant_by_id t d))"

text \<open>The keys one organization string asks for: the root and every cumulative path.\<close>

definition org_keys :: "string \<Rightarrow> string list" where
  "org_keys org =
     (if org = [] then []
      else if CHR ''/'' \<in> set org then
        root_org_of org #
          map (\<lambda>ip. full_org_path (root_org_of org)
                        (split_sep CHR ''-'' (child_org_part_of org)) (fst ip))
              (enumerate 0 (split_sep CHR ''-'' (child_org_part_of org)))
      else [org])"

text \<open>
  An organization is settled in a loop state when each of its keys is mapped to a tenant
  id that is in \<^verbatim>\<open>user_tenant_ids\<close> or has no tenant row: the loop body then has nothing
  to do for it.
\<close>

definition settled :: "(string \<rightharpoonup> nat) \<times> nat list \<times> db \<Rightarrow> string \<Rightarrow> bool" where
  "settled = (\<lambda>(o2t, uti, d) org.
     \<forall>k\<in>set (org_keys org). \<exists>t. o2t k = Some t \<and> (t \<in> set uti \<or> tenant_by_id t d = None))"


section \<open>Example inputs\<close>

text \<open>Concrete databases, identities and requests on which the theorems below are run.\<close>

definition empty_db :: db where
  "empty_db = \<lparr>accounts = [], tenants = [], mappings = [], joins = [], integrates = [],
               provider_requests = [], sessions = []\<rparr>"

definition ann :: OAuthUserInfo where
  "ann = \<lparr>user_id = ''u-1'', user_name = ''Ann'', user_email = ''ann@acme.test'',
          organizations = [''Acme'']\<rparr>"

definition casdoor_env :: env where
  "casdoor_env =
     \<lparr>github_configured = False, casdoor_configured = True,
      arg_code = Some ''c0'', arg_state = None,
      oauth_exchange = (\<lambda>provider code. if code = ''c0'' then Some ann else None),
      is_valid_invite_token = (\<lambda>t. t = ''inv-1''),
      get_invitation_by_token =
        (\<lambda>t. if t = ''inv-1'' then Some (Some ''bob@acme.test'') else None),
      is_allow_register = True, is_allow_create_workspace = True,
      BILLING_ENABLED = False, is_email_in_freeze = (\<lambda>em. em = ''ann@acme.test''),
      best_match_language = None, first_language = ''en-US'', more_languages = [''zh-Hans''],
      naive_utc_now = 100\<rparr>"

definition ann_account :: "AccountStatus \<Rightarrow> Account" where
  "ann_account st =
     \<lparr>account_id = 7, account_email = ''ann@acme.test'', account_name = ''Ann'',
      account_status = st, interface_language = ''en-US'', current_tenant = None,
      initialized_at = None\<rparr>"

definition old_tenant :: Tenant where
  "old_tenant =
     \<lparr>tenant_id = 1, tenant_name = ''Old'', casdoor_org_id = None, parent_id = None,
      tenant_plan = ''basic'', tenant_status = ''normal''\<rparr>"

text \<open>Ann's account, a member of one tenant that no organization maps to.\<close>

definition member_db :: "AccountStatus \<Rightarrow> db" where
  "member_db st =
     empty_db\<lparr>accounts := [ann_account st], tenants := [old_tenant],
              joins := [\<lparr>join_tenant_id = 1, join_account_id = 7, join_role = ''owner''\<rparr>]\<rparr>"

text \<open>The same database with tenant 1 selected as Ann's current tenant.\<close>

definition acme_db :: db where
  "acme_db = set_current_tenant 7 1 (member_db ACTIVE)"



section \<open>The callback without an authorization code\<close>

text \<open>
  C10. A callback for a configured provider that carries no \<^verbatim>\<open>code\<close> argument is answered
  with the 400 error "Authorization code is required", and the database comes back as it
  was: no request to the OAuth provider is recorded and no account, tenant, mapping or
  membership row changes.
\<close>

theorem callback_without_code:
  assumes "oauth_provider_configured e provider" and "arg_code e = None"
  shows "OAuthCallback_get e provider d = (Json400 ''Authorization code is required'', d)"
  using assms by (simp add: OAuthCallback_get_def code_of_def)

theorem callback_without_code_witness:
  "oauth_provider_configured (casdoor_env\<lparr>arg_code := None\<rparr>) ''casdoor''
   \<and> arg_code (casdoor_env\<lparr>arg_code := None\<rparr>) = None
   \<and> OAuthCallback_get (casdoor_env\<lparr>arg_code := None\<rparr>) ''casdoor'' (member_db ACTIVE)
       = (Json400 ''Authorization code is required'', member_db ACTIVE)"
proof -
  have c: "oauth_provider_configured (casdoor_env\<lparr>arg_code := None\<rparr>) ''casdoor''"
    by (simp add: oauth_provider_configured_def casdoor_env_def)
  have n: "arg_code (casdoor_env\<lparr>arg_code := None\<rparr>) = None"
    by simp
  show ?thesis
    using c n callback_without_code [OF c n, of "member_db ACTIVE"] by simp
qed

section \<open>The invitation branch\<close>

text \<open>
  C7. When the callback carries a valid invite token and the invitation's email differs
  from the email of the external identity, the answer is the redirect with the message
  "Invalid invitation token.". The only change to the database is the recorded request to
  the provider: \<^verbatim>\<open>_generate_account\<close> does not run, so no account and no tenant is created.
\<close>

theorem invite_mismatch_redirect:
  assumes "oauth_provider_configured e provider"
    and "arg_code e = Some code" and "code \<noteq> []"
    and "oauth_exchange e provider code = Some ui"
    and "arg_state e = Some invite_token" and "invite_token \<noteq> []"
    and "is_valid_invite_token e invite_token"
    and "get_invitation_by_token e invite_token = Some invitation_email"
    and "invitation_email \<noteq> Some (user_email ui)"
  shows "OAuthCallback_get e provider d =
           (Redirect ''/signin?message=Invalid invitation token.'', record_request provider code d)
         \<and> accounts (snd (OAuthCallback_get e provider d)) = accounts d
         \<and> tenants (snd (OAuthCallback_get e provider d)) = tenants d
         \<and> mappings (snd (OAuthCallback_get e provider d)) = mappings d
         \<and> joins (snd (OAuthCallback_get e provider d)) = joins d
         \<and> integrates (snd (OAuthCallback_get e provider d)) = integrates d"
  using assms
  by (simp add: OAuthCallback_get_def invite_redirect_def code_of_def invite_token_of_def
      record_request_def)

theorem invite_mismatch_redirect_witness:
  "oauth_provider_configured (casdoor_env\<lparr>arg_state := Some ''inv-1''\<rparr>) ''casdoor''
   \<and> arg_code (casdoor_env\<lparr>arg_state := Some ''inv-1''\<rparr>) = Some ''c0''
   \<and> oauth_exchange (casdoor_env\<lparr>arg_state := Some ''inv-1''\<rparr>) ''casdoor'' ''c0'' = Some ann
   \<and> arg_state (casdoor_env\<lparr>arg_state := Some ''inv-1''\<rparr>) = Some ''inv-1''
   \<and> is_valid_invite_token (casdoor_env\<lparr>arg_state := Some ''inv-1''\<rparr>) ''inv-1''
   \<and> get_invitation_by_token (casdoor_env\<lparr>arg_state := Some ''inv-1''\<rparr>) ''inv-1''
       = Some (Some ''bob@acme.test'')
   \<and> Some ''bob@acme.test'' \<noteq> Some (user_email ann)
   \<and> OAuthCallback_get (casdoor_env\<lparr>arg_state := Some ''inv-1''\<rparr>) ''casdoor'' empty_db =
       (Redirect ''/signin?message=Invalid invitation token.'',
        record_request ''casdoor'' ''c0'' empty_db)"
proof -
  have h1: "oauth_provider_configured (casdoor_env\<lparr>arg_state := Some ''inv-1''\<rparr>) ''casdoor''"
    by (simp add: oauth_provider_configured_def casdoor_env_def)
  have h2: "arg_code (casdoor_env\<lparr>arg_state := Some ''inv-1''\<rparr>) = Some ''c0''"
    by (simp add: casdoor_env_def)
  have h3: "''c0'' \<noteq> []"
    by simp
  have h4: "oauth_exchange (casdoor_env\<lparr>arg_state := Some ''inv-1''\<rparr>) ''casdoor'' ''c0'' = Some ann"
    by (simp add: casdoor_env_def)
  have h5: "arg_state (casdoor_env\<lparr>arg_state := Some ''inv-1''\<rparr>) = Some ''inv-1''"
    by simp
  have h6: "''inv-1'' \<noteq> []"
    by simp
  have h7: "is_valid_invite_token (casdoor_env\<lparr>arg_state := Some ''inv-1''\<rparr>) ''inv-1''"
    by (simp add: casdoor_env_def)
  have h8: "get_invitation_by_token (casdoor_env\<lparr>arg_state := Some ''inv-1''\<rparr>) ''inv-1''
              = Some (Some ''bob@acme.test'')"
    by (simp add: casdoor_env_def)
  have h9: "Some ''bob@acme.test'' \<noteq> Some (user_email ann)"
    by (simp add: ann_def)
  show ?thesis
    using h1 h2 h4 h5 h7 h8 h9
      invite_mismatch_redirect [OF h1 h2 h3 h4 h5 h6 h7 h8 h9, of empty_db]
    by simp
qed

section \<open>Registration switched off\<close>

text \<open>
  C5, at the input where the claim fails: registration is disabled and the billing
  service would report the email as frozen, but billing is not enabled, so the service is
  not asked and the error is the generic one.
\<close>

theorem registration_disabled_counterexample:
  "get_account_by_openid_or_email ''casdoor'' ann empty_db = Inr None
   \<and> \<not> is_allow_register (casdoor_env\<lparr>is_allow_register := False\<rparr>)
   \<and> is_email_in_freeze (casdoor_env\<lparr>is_allow_register := False\<rparr>) (user_email ann)
   \<and> generate_account (casdoor_env\<lparr>is_allow_register := False\<rparr>) ''casdoor'' ann empty_db
       = (Inl (AccountRegisterError ''Invalid email or password''), empty_db)
   \<and> ''Invalid email or password'' \<noteq> freeze_message"
  by code_simp

text \<open>
  C5, amended. For an identity with no matching account and registration disabled:
  when billing is enabled and the email is on the freeze list, \<^verbatim>\<open>_generate_account\<close> raises
  the registration error with the deleted-within-30-days message; otherwise it raises the
  registration error with the generic message, which is a different one. In both cases
  the database is unchanged, so no account is created.
\<close>

theorem registration_disabled_errors:
  assumes "get_account_by_openid_or_email provider ui d = Inr None"
    and "\<not> is_allow_register e"
  shows "generate_account e provider ui d =
           (Inl (AccountRegisterError
                   (if BILLING_ENABLED e \<and> is_email_in_freeze e (user_email ui)
                    then freeze_message else ''Invalid email or password'')), d)
         \<and> freeze_message \<noteq> ''Invalid email or password''"
  using assms by (simp add: generate_account_def freeze_message_def)

theorem registration_disabled_errors_witness:
  "get_account_by_openid_or_email ''casdoor'' ann empty_db = Inr None
   \<and> \<not> is_allow_register (casdoor_env\<lparr>is_allow_register := False, BILLING_ENABLED := True\<rparr>)
   \<and> generate_account (casdoor_env\<lparr>is_allow_register := False, BILLING_ENABLED := True\<rparr>)
         ''casdoor'' ann empty_db
       = (Inl (AccountRegisterError freeze_message), empty_db)"
proof -
  have a: "get_account_by_openid_or_email ''casdoor'' ann empty_db = Inr None"
    by code_simp
  have b: "\<not> is_allow_register (casdoor_env\<lparr>is_allow_register := False, BILLING_ENABLED := True\<rparr>)"
    by simp
  have c: "BILLING_ENABLED (casdoor_env\<lparr>is_allow_register := False, BILLING_ENABLED := True\<rparr>)
           \<and> is_email_in_freeze
               (casdoor_env\<lparr>is_allow_register := False, BILLING_ENABLED := True\<rparr>) (user_email ann)"
    by (simp add: casdoor_env_def ann_def)
  show ?thesis
    using a b c registration_disabled_errors [OF a b] by simp
qed

section \<open>Identity lookup: provider link first, email second\<close>

lemma filter_distinct_find:
  "distinct (map f xs) \<Longrightarrow>
     filter (\<lambda>x. f x = v) xs = (case find (\<lambda>x. f x = v) xs of None \<Rightarrow> [] | Some x \<Rightarrow> [x])"
proof (induction xs)
  case Nil
  then show ?case by simp
next
  case (Cons x xs)
  show ?case
  proof (cases "f x = v")
    case True
    from Cons.prems have "f x \<notin> f ` set xs"
      by simp
    with True have "\<forall>y\<in>set xs. f y \<noteq> v"
      by blast
    then have "filter (\<lambda>y. f y = v) xs = []"
      by (simp add: filter_empty_conv)
    with True show ?thesis by simp
  next
    case False
    with Cons show ?thesis by simp
  qed
qed

text \<open>
  C8. \<^verbatim>\<open>_get_account_by_openid_or_email\<close> returns the account linked to
  (provider, external id) when there is one. Only when there is none does the email
  decide: with emails unique among the accounts (section 3 of the spec), the result is
  the account whose email equals the identity's email, or nothing. The function takes the
  database and returns only its answer; it writes nothing.
\<close>

theorem lookup_by_openid_then_email:
  "(get_by_openid provider (user_id ui) d = Some a \<longrightarrow>
      get_account_by_openid_or_email provider ui d = Inr (Some a))
   \<and> (get_by_openid provider (user_id ui) d = None \<longrightarrow>
        distinct (map account_email (accounts d)) \<longrightarrow>
        get_account_by_openid_or_email provider ui d =
          Inr (find (\<lambda>a. account_email a = user_email ui) (accounts d)))"
  by (auto simp: get_account_by_openid_or_email_def filter_distinct_find split: option.splits)

theorem lookup_by_openid_then_email_witness:
  "get_by_openid ''casdoor'' (user_id ann) (member_db ACTIVE) = None
   \<and> distinct (map account_email (accounts (member_db ACTIVE)))
   \<and> get_account_by_openid_or_email ''casdoor'' ann (member_db ACTIVE)
       = Inr (Some (ann_account ACTIVE))"
proof -
  have a: "get_by_openid ''casdoor'' (user_id ann) (member_db ACTIVE) = None"
    by code_simp
  have b: "distinct (map account_email (accounts (member_db ACTIVE)))"
    by code_simp
  have c: "find (\<lambda>a. account_email a = user_email ann) (accounts (member_db ACTIVE))
             = Some (ann_account ACTIVE)"
    by code_simp
  show ?thesis
    using a b c lookup_by_openid_then_email [of "''casdoor''" ann "member_db ACTIVE"] by simp
qed

section \<open>Banned accounts\<close>




section \<open>Fresh tenant ids\<close>

lemma fold_max_ge: "(a::nat) \<le> fold max xs a"
  by (induction xs arbitrary: a) (auto intro: order_trans [OF max.cobounded2])

lemma fold_max_mem: "x \<in> set xs \<Longrightarrow> (x::nat) \<le> fold max xs a"
proof (induction xs arbitrary: a)
  case Nil
  then show ?case by simp
next
  case (Cons y ys)
  show ?case
  proof (cases "x = y")
    case True
    have "y \<le> max y a" by simp
    also have "\<dots> \<le> fold max ys (max y a)" by (rule fold_max_ge)
    finally show ?thesis using True by simp
  next
    case False
    with Cons show ?thesis by simp
  qed
qed

lemma max_list_mem: "x \<in> set xs \<Longrightarrow> x \<le> max_list xs"
  by (simp add: max_list_def fold_max_mem)


lemma mapping_id_fresh: "m \<in> set (mappings d) \<Longrightarrow> mapping_tenant_id m < new_tenant_id d"
  by (simp add: new_tenant_id_def less_Suc_eq_le max_list_mem)

lemma join_id_fresh: "j \<in> set (joins d) \<Longrightarrow> join_tenant_id j < new_tenant_id d"
  by (simp add: new_tenant_id_def less_Suc_eq_le max_list_mem)

lemma org_to_tenant_of_snoc:
  "org_to_tenant_of (ms @ [m]) = (org_to_tenant_of ms)(mapping_casdoor_org_id m \<mapsto> mapping_tenant_id m)"
  by (simp add: org_to_tenant_of_def)

lemma org_to_tenant_of_ran:
  "org_to_tenant_of ms k = Some t \<Longrightarrow> t \<in> mapping_tenant_id ` set ms"
  by (auto simp: org_to_tenant_of_def dest!: map_of_SomeD)

lemma mapped_id_fresh: "org_to_tenant_of (mappings d) k = Some t \<Longrightarrow> t < new_tenant_id d"
  by (auto dest!: org_to_tenant_of_ran simp: mapping_id_fresh)

lemma extends_refl: "extends st st"
  by (cases st) (simp add: extends_def)

lemma extends_trans:
  assumes "extends a b" and "extends b c"
  shows "extends a c"
proof -
  obtain o1 u1 d1 where a: "a = (o1, u1, d1)" by (cases a)
  obtain o2 u2 d2 where b: "b = (o2, u2, d2)" by (cases b)
  obtain o3 u3 d3 where c: "c = (o3, u3, d3)" by (cases c)
  from assms(1) a b obtain js where
    ab: "accounts d2 = accounts d1" "integrates d2 = integrates d1"
      "provider_requests d2 = provider_requests d1" "sessions d2 = sessions d1"
      "o1 \<subseteq>\<^sub>m o2" "joins d2 = joins d1 @ js" "u2 = u1 @ map join_tenant_id js"
      "new_tenant_id d1 \<le> new_tenant_id d2"
      "\<forall>t<new_tenant_id d1. tenant_by_id t d2 = tenant_by_id t d1"
    by (auto simp: extends_def)
  from assms(2) b c obtain ks where
    bc: "accounts d3 = accounts d2" "integrates d3 = integrates d2"
      "provider_requests d3 = provider_requests d2" "sessions d3 = sessions d2"
      "o2 \<subseteq>\<^sub>m o3" "joins d3 = joins d2 @ ks" "u3 = u2 @ map join_tenant_id ks"
      "new_tenant_id d2 \<le> new_tenant_id d3"
      "\<forall>t<new_tenant_id d2. tenant_by_id t d3 = tenant_by_id t d2"
    by (auto simp: extends_def)
  have m: "o1 \<subseteq>\<^sub>m o3"
    using ab(5) bc(5) by (rule map_le_trans)
  have j: "joins d3 = joins d1 @ (js @ ks) \<and> u3 = u1 @ map join_tenant_id (js @ ks)"
    using ab(6,7) bc(6,7) by simp
  have n: "new_tenant_id d1 \<le> new_tenant_id d3"
    using ab(8) bc(8) by simp
  have t: "\<forall>t<new_tenant_id d1. tenant_by_id t d3 = tenant_by_id t d1"
    using ab(8,9) bc(9) by auto
  show ?thesis
    unfolding a c extends_def using ab(1-4) bc(1-4) m j n t by auto
qed

section \<open>One step of the synchronization\<close>

lemma fold_max_zero: "fold max xs (a::nat) = max (fold max xs 0) a"
proof (induction xs arbitrary: a)
  case Nil
  then show ?case by simp
next
  case (Cons x xs)
  have "fold max (x # xs) a = max (fold max xs 0) (max x a)"
    using Cons [of "max x a"] by simp
  moreover have "fold max (x # xs) 0 = max (fold max xs 0) x"
    using Cons [of x] by simp
  ultimately show ?case by (simp add: max.assoc)
qed

lemma max_list_least: "(\<And>x. x \<in> set xs \<Longrightarrow> x \<le> b) \<Longrightarrow> max_list xs \<le> b"
proof (induction xs)
  case Nil
  then show ?case by (simp add: max_list_def)
next
  case (Cons x xs)
  have "max_list (x # xs) = max (max_list xs) x"
    using fold_max_zero [of xs x] by (simp add: max_list_def)
  with Cons show ?case by simp
qed

lemma max_list_mono: "set xs \<subseteq> set ys \<Longrightarrow> max_list xs \<le> max_list ys"
  by (rule max_list_least) (auto intro: max_list_mem)

lemma new_tenant_id_mono:
  assumes "set (tenants d) \<subseteq> set (tenants d')" and "set (mappings d) \<subseteq> set (mappings d')"
    and "set (joins d) \<subseteq> set (joins d')"
  shows "new_tenant_id d \<le> new_tenant_id d'"
  unfolding new_tenant_id_def using assms
  by (intro Suc_le_mono [THEN iffD2] max_list_mono) auto

lemma find_snoc:
  "find P (xs @ [y]) = (case find P xs of None \<Rightarrow> (if P y then Some y else None) | Some x \<Rightarrow> Some x)"
  by (induction xs) auto

lemma find_tenant_id: "find (\<lambda>t. tenant_id t = k) ts = Some t \<Longrightarrow> tenant_id t = k \<and> t \<in> set ts"
  by (auto simp: find_Some_iff)

lemma join_pair_iff:
  "((k, aid) \<in> set (map (\<lambda>j. (join_tenant_id j, join_account_id j)) js))
     = (\<exists>j\<in>set js. join_tenant_id j = k \<and> join_account_id j = aid)"
  by (induction js) auto

lemma join_ids_set:
  "set (join_ids aid d) =
     {k. (\<exists>t\<in>set (tenants d). tenant_id t = k) \<and>
         (\<exists>j\<in>set (joins d). join_tenant_id j = k \<and> join_account_id j = aid)}"
proof (intro set_eqI iffI)
  fix k
  assume "k \<in> set (join_ids aid d)"
  then obtain t where "t \<in> set (tenants d)" "tenant_id t = k"
    "(tenant_id t, aid) \<in> set (map (\<lambda>j. (join_tenant_id j, join_account_id j)) (joins d))"
    by (auto simp: join_ids_def get_join_tenants_def)
  then show "k \<in> {k. (\<exists>t\<in>set (tenants d). tenant_id t = k) \<and>
         (\<exists>j\<in>set (joins d). join_tenant_id j = k \<and> join_account_id j = aid)}"
    unfolding join_pair_iff by blast
next
  fix k
  assume "k \<in> {k. (\<exists>t\<in>set (tenants d). tenant_id t = k) \<and>
         (\<exists>j\<in>set (joins d). join_tenant_id j = k \<and> join_account_id j = aid)}"
  then obtain t where t: "t \<in> set (tenants d)" "tenant_id t = k"
    and j: "\<exists>j\<in>set (joins d). join_tenant_id j = k \<and> join_account_id j = aid"
    by blast
  from j t(2) have "(tenant_id t, aid) \<in> set (map (\<lambda>j. (join_tenant_id j, join_account_id j)) (joins d))"
    unfolding join_pair_iff by simp
  with t show "k \<in> set (join_ids aid d)"
    by (auto simp: join_ids_def get_join_tenants_def)
qed

lemma ensure_tenant_step:
  assumes inv: "sync_inv aid (o2t, uti, d)"
    and run: "ensure_tenant key nm par (o2t, d) = (tid, o2t', d')"
  shows "sync_inv aid (o2t', uti, d') \<and> extends (o2t, uti, d) (o2t', uti, d') \<and> o2t' key = Some tid"
proof (cases "o2t key")
  case (Some t)
  with run have "tid = t" "o2t' = o2t" "d' = d"
    by (simp_all add: ensure_tenant_def)
  with inv Some show ?thesis
    by (simp add: extends_refl)
next
  case None
  let ?n = "new_tenant_id d"
  from run None have tid: "tid = ?n" and o2t': "o2t' = o2t(key \<mapsto> ?n)"
    and ten: "tenants d' = tenants d @
        [\<lparr>tenant_id = ?n, tenant_name = nm, casdoor_org_id = Some key, parent_id = par,
          tenant_plan = ''basic'', tenant_status = ''normal''\<rparr>]"
    and mp: "mappings d' = mappings d @ [\<lparr>mapping_casdoor_org_id = key, mapping_tenant_id = ?n\<rparr>]"
    and rest: "joins d' = joins d" "accounts d' = accounts d" "integrates d' = integrates d"
      "provider_requests d' = provider_requests d" "sessions d' = sessions d"
    by (auto simp: ensure_tenant_def add_tenant_def org_tenant_def org_mapping_def)
  from inv have i1: "o2t = org_to_tenant_of (mappings d)" and i2: "set uti = set (join_ids aid d)"
    by (simp_all add: sync_inv_def)
  have a: "o2t' = org_to_tenant_of (mappings d')"
    by (simp add: o2t' mp org_to_tenant_of_snoc i1)
  have nj: "\<forall>j\<in>set (joins d). join_tenant_id j \<noteq> ?n"
    using join_id_fresh by fastforce
  have b: "set (join_ids aid d') = set (join_ids aid d)"
    unfolding join_ids_set using nj by (auto simp: ten rest)
  have c: "o2t \<subseteq>\<^sub>m o2t'"
    using None by (auto simp: map_le_def o2t')
  have e: "new_tenant_id d \<le> new_tenant_id d'"
    by (rule new_tenant_id_mono) (auto simp: ten mp rest)
  have f: "\<forall>t<new_tenant_id d. tenant_by_id t d' = tenant_by_id t d"
    by (auto simp: tenant_by_id_def ten find_snoc split: option.splits)
  have k: "o2t' key = Some tid"
    by (simp add: o2t' tid)
  have "sync_inv aid (o2t', uti, d')"
    using a b i2 by (simp add: sync_inv_def)
  moreover have "extends (o2t, uti, d) (o2t', uti, d')"
    using c e f rest by (simp add: extends_def)
  ultimately show ?thesis
    using k by simp
qed

lemma ensure_tenant_tenants_only:
  "ensure_tenant key nm par (o2t, d) = (tid, o2t', d') \<Longrightarrow> joins d' = joins d"
  by (auto simp: ensure_tenant_def add_tenant_def split: option.splits)

lemma attach_owner_step:
  assumes inv: "sync_inv aid (o2t, uti, d)"
    and run: "attach_owner aid tid (uti, d) = (uti', d')"
  shows "sync_inv aid (o2t, uti', d') \<and> extends (o2t, uti, d) (o2t, uti', d')
         \<and> tenants d' = tenants d \<and> mappings d' = mappings d
         \<and> (tid \<in> set uti' \<or> tenant_by_id tid d' = None)"
proof (cases "tid \<in> set uti \<or> tenant_by_id tid d = None")
  case True
  with run have "uti' = uti" "d' = d"
    by (auto simp: attach_owner_def split: if_splits)
  with inv True show ?thesis
    by (auto simp: extends_refl)
next
  case False
  then obtain t where t: "tenant_by_id tid d = Some t" and nin: "tid \<notin> set uti"
    by auto
  from t have tt: "tenant_id t = tid" "t \<in> set (tenants d)"
    using find_tenant_id by (auto simp: tenant_by_id_def)
  from inv have i1: "o2t = org_to_tenant_of (mappings d)" and i2: "set uti = set (join_ids aid d)"
    by (simp_all add: sync_inv_def)
  from nin i2 tt have nj: "(tid, aid) \<notin> set (map (\<lambda>j. (join_tenant_id j, join_account_id j)) (joins d))"
    unfolding join_ids_set join_pair_iff by blast
  let ?j = "\<lparr>join_tenant_id = tid, join_account_id = aid, join_role = ''owner''\<rparr>"
  from run t nin nj tt have u: "uti' = uti @ [tid]" and d': "d' = d\<lparr>joins := joins d @ [?j]\<rparr>"
    by (auto simp: attach_owner_def create_tenant_member_def)
  have b: "set (join_ids aid d') = insert tid (set (join_ids aid d))"
    unfolding join_ids_set using tt by (auto simp: d')
  have e: "new_tenant_id d \<le> new_tenant_id d'"
    by (rule new_tenant_id_mono) (auto simp: d')
  have f: "\<forall>k. tenant_by_id k d' = tenant_by_id k d"
    by (simp add: tenant_by_id_def d')
  have g: "joins d' = joins d @ [?j] \<and> uti' = uti @ map join_tenant_id [?j]"
    by (simp add: d' u)
  have "extends (o2t, uti, d) (o2t, uti', d')"
    unfolding extends_def using e f g by (auto simp: d')
  moreover have "sync_inv aid (o2t, uti', d')"
    using i1 i2 b by (simp add: sync_inv_def u d')
  ultimately show ?thesis
    by (simp add: d' u)
qed

section \<open>The loops of the synchronization\<close>

lemma extends_uti: "extends (o2t, uti, d) (o2t', uti', d') \<Longrightarrow> set uti \<subseteq> set uti'"
  by (auto simp: extends_def)

lemma extends_o2t: "extends (o2t, uti, d) (o2t', uti', d') \<Longrightarrow> o2t k = Some t \<Longrightarrow> o2t' k = Some t"
  by (auto simp: extends_def map_le_def dom_def)

lemma levels_fold:
  assumes "sync_inv aid (o2t, uti, d)"
    and "fold (level_step root parts) ips (o2t, d, p, ls) = (o2t', d', p', ls')"
  shows "sync_inv aid (o2t', uti, d') \<and> extends (o2t, uti, d) (o2t', uti, d')
         \<and> joins d' = joins d
         \<and> (\<exists>new. ls' = ls @ new
               \<and> map (\<lambda>ip. o2t' (full_org_path root parts (fst ip))) ips = map Some new)"
  using assms
proof (induction ips arbitrary: o2t d p ls)
  case Nil
  then show ?case by (simp add: extends_refl)
next
  case (Cons ip ips)
  obtain i part where ip: "ip = (i, part)" by (cases ip)
  obtain tid o2t1 d1 where e: "ensure_tenant (full_org_path root parts i) part (Some p) (o2t, d) = (tid, o2t1, d1)"
    by (cases "ensure_tenant (full_org_path root parts i) part (Some p) (o2t, d)") auto
  from ensure_tenant_step [OF Cons.prems(1) e]
  have s1: "sync_inv aid (o2t1, uti, d1)" and x1: "extends (o2t, uti, d) (o2t1, uti, d1)"
    and k1: "o2t1 (full_org_path root parts i) = Some tid"
    by simp_all
  have j1: "joins d1 = joins d"
    using e by (rule ensure_tenant_tenants_only)
  from Cons.prems(2) ip e
  have r: "fold (level_step root parts) ips (o2t1, d1, tid, ls @ [tid]) = (o2t', d', p', ls')"
    by (simp add: level_step_def)
  from Cons.IH [OF s1 r] obtain new where
    s2: "sync_inv aid (o2t', uti, d')" and x2: "extends (o2t1, uti, d1) (o2t', uti, d')"
    and j2: "joins d' = joins d1" and n: "ls' = (ls @ [tid]) @ new"
    and m: "map (\<lambda>ip. o2t' (full_org_path root parts (fst ip))) ips = map Some new"
    by blast
  have k2: "o2t' (full_org_path root parts i) = Some tid"
    using x2 k1 by (rule extends_o2t)
  have "ls' = ls @ (tid # new)
        \<and> map (\<lambda>ip. o2t' (full_org_path root parts (fst ip))) (ip # ips) = map Some (tid # new)"
    using n m k2 ip by simp
  then have "\<exists>new. ls' = ls @ new
        \<and> map (\<lambda>ip. o2t' (full_org_path root parts (fst ip))) (ip # ips) = map Some new"
    by (rule exI [of _ "tid # new"])
  then show ?case
    using s2 extends_trans [OF x1 x2] j1 j2 by simp
qed

lemma attach_fold:
  assumes "sync_inv aid (o2t, uti, d)"
    and "fold (attach_owner aid) ls (uti, d) = (uti', d')"
  shows "sync_inv aid (o2t, uti', d') \<and> extends (o2t, uti, d) (o2t, uti', d')
         \<and> tenants d' = tenants d \<and> mappings d' = mappings d
         \<and> (\<forall>t\<in>set ls. t \<in> set uti' \<or> tenant_by_id t d' = None)"
  using assms
proof (induction ls arbitrary: uti d)
  case Nil
  then show ?case by (simp add: extends_refl)
next
  case (Cons t ls)
  obtain uti1 d1 where a: "attach_owner aid t (uti, d) = (uti1, d1)"
    by (cases "attach_owner aid t (uti, d)") auto
  from attach_owner_step [OF Cons.prems(1) a]
  have s1: "sync_inv aid (o2t, uti1, d1)" and x1: "extends (o2t, uti, d) (o2t, uti1, d1)"
    and t1: "tenants d1 = tenants d" and m1: "mappings d1 = mappings d"
    and h1: "t \<in> set uti1 \<or> tenant_by_id t d1 = None"
    by simp_all
  from Cons.prems(2) a have r: "fold (attach_owner aid) ls (uti1, d1) = (uti', d')"
    by simp
  from Cons.IH [OF s1 r]
  have s2: "sync_inv aid (o2t, uti', d')" and x2: "extends (o2t, uti1, d1) (o2t, uti', d')"
    and t2: "tenants d' = tenants d1" and m2: "mappings d' = mappings d1"
    and h2: "\<forall>t\<in>set ls. t \<in> set uti' \<or> tenant_by_id t d' = None"
    by simp_all
  have "t \<in> set uti' \<or> tenant_by_id t d' = None"
    using h1 extends_uti [OF x2] t2 by (auto simp: tenant_by_id_def)
  then show ?case
    using s2 extends_trans [OF x1 x2] t1 t2 m1 m2 h2 by simp
qed

lemma sync_org_step:
  assumes inv: "sync_inv aid (o2t, uti, d)"
    and run: "sync_org aid org (o2t, uti, d) = (o2t', uti', d')"
  shows "sync_inv aid (o2t', uti', d') \<and> extends (o2t, uti, d) (o2t', uti', d')
         \<and> settled (o2t', uti', d') org"
proof (cases "org = []")
  case True
  with run inv show ?thesis
    by (simp add: sync_org_def extends_refl settled_def org_keys_def)
next
  case ne: False
  show ?thesis
  proof (cases "CHR ''/'' \<in> set org")
    case False
    obtain tid o2t1 d1 where e: "ensure_tenant org org None (o2t, d) = (tid, o2t1, d1)"
      by (cases "ensure_tenant org org None (o2t, d)") auto
    obtain uti2 d2 where a: "attach_owner aid tid (uti, d1) = (uti2, d2)"
      by (cases "attach_owner aid tid (uti, d1)") auto
    from run ne False e a have res: "o2t' = o2t1" "uti' = uti2" "d' = d2"
      by (simp_all add: sync_org_def)
    from ensure_tenant_step [OF inv e]
    have s1: "sync_inv aid (o2t1, uti, d1)" and x1: "extends (o2t, uti, d) (o2t1, uti, d1)"
      and k1: "o2t1 org = Some tid"
      by simp_all
    from attach_owner_step [OF s1 a]
    have s2: "sync_inv aid (o2t1, uti2, d2)" and x2: "extends (o2t1, uti, d1) (o2t1, uti2, d2)"
      and h: "tid \<in> set uti2 \<or> tenant_by_id tid d2 = None"
      by simp_all
    have "settled (o2t1, uti2, d2) org"
      using ne False k1 h by (simp add: settled_def org_keys_def)
    then show ?thesis
      using s2 extends_trans [OF x1 x2] res by simp
  next
    case True
    let ?root = "root_org_of org"
    let ?parts = "split_sep CHR ''-'' (child_org_part_of org)"
    obtain rt o2t1 d1 where e: "ensure_tenant ?root ?root None (o2t, d) = (rt, o2t1, d1)"
      by (cases "ensure_tenant ?root ?root None (o2t, d)") auto
    obtain o2t2 d2 p ls where l:
      "fold (level_step ?root ?parts) (enumerate 0 ?parts) (o2t1, d1, rt, [rt]) = (o2t2, d2, p, ls)"
      by (cases "fold (level_step ?root ?parts) (enumerate 0 ?parts) (o2t1, d1, rt, [rt])") auto
    obtain uti3 d3 where a: "fold (attach_owner aid) ls (uti, d2) = (uti3, d3)"
      by (cases "fold (attach_owner aid) ls (uti, d2)") auto
    from run ne True e l a have res: "o2t' = o2t2" "uti' = uti3" "d' = d3"
      by (simp_all add: sync_org_def Let_def)
    from ensure_tenant_step [OF inv e]
    have s1: "sync_inv aid (o2t1, uti, d1)" and x1: "extends (o2t, uti, d) (o2t1, uti, d1)"
      and k1: "o2t1 ?root = Some rt"
      by simp_all
    from levels_fold [OF s1 l] obtain new where
      s2: "sync_inv aid (o2t2, uti, d2)" and x2: "extends (o2t1, uti, d1) (o2t2, uti, d2)"
      and n: "ls = [rt] @ new"
      and m: "map (\<lambda>ip. o2t2 (full_org_path ?root ?parts (fst ip))) (enumerate 0 ?parts) = map Some new"
      by blast
    from attach_fold [OF s2 a]
    have s3: "sync_inv aid (o2t2, uti3, d3)" and x3: "extends (o2t2, uti, d2) (o2t2, uti3, d3)"
      and h: "\<forall>t\<in>set ls. t \<in> set uti3 \<or> tenant_by_id t d3 = None"
      by simp_all
    have kr: "o2t2 ?root = Some rt"
      using x2 k1 by (rule extends_o2t)
    have "\<exists>t. o2t2 k = Some t \<and> (t \<in> set uti3 \<or> tenant_by_id t d3 = None)"
      if "k \<in> set (org_keys org)" for k
    proof (cases "k = ?root")
      case True
      with kr h n show ?thesis by simp
    next
      case False
      with that ne \<open>CHR ''/'' \<in> set org\<close>
      obtain ip where ip: "ip \<in> set (enumerate 0 ?parts)" "k = full_org_path ?root ?parts (fst ip)"
        by (auto simp: org_keys_def)
      then have "o2t2 k \<in> set (map (\<lambda>ip. o2t2 (full_org_path ?root ?parts (fst ip))) (enumerate 0 ?parts))"
        by auto
      then obtain t where "o2t2 k = Some t" "t \<in> set new"
        unfolding m by auto
      with h n show ?thesis by simp
    qed
    then have "settled (o2t2, uti3, d3) org"
      by (simp add: settled_def)
    then show ?thesis
      using s3 extends_trans [OF x1 extends_trans [OF x2 x3]] res by simp
  qed
qed

section \<open>Settled organizations\<close>

lemma ensure_tenant_mapped:
  "o2t key = Some t \<Longrightarrow> ensure_tenant key nm par (o2t, d) = (t, o2t, d)"
  by (simp add: ensure_tenant_def)

lemma levels_fold_mapped:
  "map (\<lambda>ip. o2t (full_org_path root parts (fst ip))) ips = map Some new \<Longrightarrow>
     \<exists>p'. fold (level_step root parts) ips (o2t, d, p, ls) = (o2t, d, p', ls @ new)"
proof (induction ips arbitrary: p ls new)
  case Nil
  then show ?case by simp
next
  case (Cons ip ips)
  obtain i part where ip: "ip = (i, part)" by (cases ip)
  from Cons.prems obtain t rest where new: "new = t # rest"
    and k: "o2t (full_org_path root parts i) = Some t"
    and m: "map (\<lambda>ip. o2t (full_org_path root parts (fst ip))) ips = map Some rest"
    using ip by (cases new) auto
  from Cons.IH [OF m, of t "ls @ [t]"] obtain p' where
    "fold (level_step root parts) ips (o2t, d, t, ls @ [t]) = (o2t, d, p', (ls @ [t]) @ rest)"
    by blast
  then show ?case
    using ip k new by (simp add: level_step_def ensure_tenant_mapped)
qed

lemma attach_fold_settled:
  "\<forall>t\<in>set ls. t \<in> set uti \<or> tenant_by_id t d = None \<Longrightarrow>
     fold (attach_owner aid) ls (uti, d) = (uti, d)"
  by (induction ls) (auto simp: attach_owner_def)

lemma all_mapped_witness:
  "\<forall>k\<in>set ks. \<exists>t. f k = Some t \<and> P t \<Longrightarrow>
     \<exists>new. map f ks = map Some new \<and> (\<forall>t\<in>set new. P t)"
proof (induction ks)
  case Nil
  then show ?case by simp
next
  case (Cons k ks)
  then obtain t where t: "f k = Some t" "P t"
    by auto
  from Cons obtain new where new: "map f ks = map Some new" "\<forall>t\<in>set new. P t"
    by auto
  have "map f (k # ks) = map Some (t # new) \<and> (\<forall>x\<in>set (t # new). P x)"
    using t new by simp
  then show ?case
    by (rule exI [of _ "t # new"])
qed

lemma sync_org_settled:
  assumes "settled (o2t, uti, d) org"
  shows "sync_org aid org (o2t, uti, d) = (o2t, uti, d)"
proof (cases "org = []")
  case True
  then show ?thesis by (simp add: sync_org_def)
next
  case ne: False
  show ?thesis
  proof (cases "CHR ''/'' \<in> set org")
    case False
    with assms ne obtain t where "o2t org = Some t" "t \<in> set uti \<or> tenant_by_id t d = None"
      by (auto simp: settled_def org_keys_def)
    with ne False show ?thesis
      by (auto simp: sync_org_def ensure_tenant_mapped attach_owner_def)
  next
    case True
    let ?root = "root_org_of org"
    let ?parts = "split_sep CHR ''-'' (child_org_part_of org)"
    let ?keys = "map (\<lambda>ip. full_org_path ?root ?parts (fst ip)) (enumerate 0 ?parts)"
    from assms ne True have all: "\<forall>k\<in>set (?root # ?keys).
        \<exists>t. o2t k = Some t \<and> (t \<in> set uti \<or> tenant_by_id t d = None)"
      by (simp add: settled_def org_keys_def)
    then obtain rt where rt: "o2t ?root = Some rt" "rt \<in> set uti \<or> tenant_by_id rt d = None"
      by auto
    from all have "\<forall>k\<in>set ?keys. \<exists>t. o2t k = Some t \<and> (t \<in> set uti \<or> tenant_by_id t d = None)"
      by simp
    from all_mapped_witness [OF this] obtain new where
      new: "map o2t ?keys = map Some new"
        "\<forall>t\<in>set new. t \<in> set uti \<or> tenant_by_id t d = None"
      by blast
    from new(1) have "map (\<lambda>ip. o2t (full_org_path ?root ?parts (fst ip))) (enumerate 0 ?parts)
                        = map Some new"
      by (simp add: comp_def)
    from levels_fold_mapped [OF this, of d rt "[rt]"] obtain p' where
      l: "fold (level_step ?root ?parts) (enumerate 0 ?parts) (o2t, d, rt, [rt])
            = (o2t, d, p', [rt] @ new)"
      by blast
    have a: "fold (attach_owner aid) ([rt] @ new) (uti, d) = (uti, d)"
      using rt(2) new(2) by (intro attach_fold_settled) auto
    show ?thesis
      using ne True rt(1) l a by (simp add: sync_org_def ensure_tenant_mapped)
  qed
qed

lemma settled_extends:
  assumes "sync_inv aid (o2t, uti, d)" and "extends (o2t, uti, d) (o2t', uti', d')"
    and "settled (o2t, uti, d) org"
  shows "settled (o2t', uti', d') org"
proof -
  have "\<exists>t. o2t' k = Some t \<and> (t \<in> set uti' \<or> tenant_by_id t d' = None)"
    if "k \<in> set (org_keys org)" for k
  proof -
    from assms(3) that obtain t where t: "o2t k = Some t" "t \<in> set uti \<or> tenant_by_id t d = None"
      by (auto simp: settled_def)
    from assms(1) t(1) have "t < new_tenant_id d"
      by (auto simp: sync_inv_def intro: mapped_id_fresh)
    with assms(2) have "tenant_by_id t d' = tenant_by_id t d"
      by (simp add: extends_def)
    with t extends_uti [OF assms(2)] extends_o2t [OF assms(2) t(1)] show ?thesis
      by auto
  qed
  then show ?thesis
    by (simp add: settled_def)
qed

lemma sync_fold:
  assumes "sync_inv aid (o2t, uti, d)"
    and "fold (sync_org aid) orgs (o2t, uti, d) = (o2t', uti', d')"
  shows "sync_inv aid (o2t', uti', d') \<and> extends (o2t, uti, d) (o2t', uti', d')
         \<and> (\<forall>org\<in>set orgs. settled (o2t', uti', d') org)"
  using assms
proof (induction orgs arbitrary: o2t uti d)
  case Nil
  then show ?case by (simp add: extends_refl)
next
  case (Cons org orgs)
  obtain o2t1 uti1 d1 where s: "sync_org aid org (o2t, uti, d) = (o2t1, uti1, d1)"
    by (cases "sync_org aid org (o2t, uti, d)") auto
  from sync_org_step [OF Cons.prems(1) s]
  have s1: "sync_inv aid (o2t1, uti1, d1)" and x1: "extends (o2t, uti, d) (o2t1, uti1, d1)"
    and h1: "settled (o2t1, uti1, d1) org"
    by simp_all
  from Cons.prems(2) s have r: "fold (sync_org aid) orgs (o2t1, uti1, d1) = (o2t', uti', d')"
    by simp
  from Cons.IH [OF s1 r]
  have s2: "sync_inv aid (o2t', uti', d')" and x2: "extends (o2t1, uti1, d1) (o2t', uti', d')"
    and h2: "\<forall>org\<in>set orgs. settled (o2t', uti', d') org"
    by simp_all
  have "settled (o2t', uti', d') org"
    using s1 x2 h1 by (rule settled_extends)
  then show ?case
    using s2 extends_trans [OF x1 x2] h2 by simp
qed

lemma sync_fold_settled:
  "\<forall>org\<in>set orgs. settled st org \<Longrightarrow> fold (sync_org aid) orgs st = st"
proof (induction orgs)
  case Nil
  then show ?case by simp
next
  case (Cons org orgs)
  obtain o2t uti d where st: "st = (o2t, uti, d)" by (cases st)
  from Cons.prems have "sync_org aid org st = st"
    unfolding st by (intro sync_org_settled) simp
  with Cons show ?case by simp
qed

section \<open>The synchronization as a whole\<close>

lemma sync_inv_start: "sync_inv aid (org_to_tenant_of (mappings d), join_ids aid d, d)"
  by (simp add: sync_inv_def)

lemma set_current_tenant_tables:
  "tenants (set_current_tenant aid t d) = tenants d"
  "mappings (set_current_tenant aid t d) = mappings d"
  "joins (set_current_tenant aid t d) = joins d"
  by (simp_all add: set_current_tenant_def)

lemma select_first_tenant_tables:
  "tenants (select_first_tenant aid uti d) = tenants d"
  "mappings (select_first_tenant aid uti d) = mappings d"
  "joins (select_first_tenant aid uti d) = joins d"
  by (simp_all add: select_first_tenant_def set_current_tenant_tables split: list.splits option.splits)

lemma join_ids_cong:
  "tenants d' = tenants d \<Longrightarrow> joins d' = joins d \<Longrightarrow> join_ids aid d' = join_ids aid d"
  by (simp add: join_ids_def get_join_tenants_def)


lemma settled_cong:
  assumes "settled (o2t, uti, d) org" and "set uti' = set uti" and "tenants d' = tenants d"
  shows "settled (o2t, uti', d') org"
  using assms by (simp add: settled_def tenant_by_id_def)

lemma account_by_id_map:
  "(\<And>a. account_id (f a) = account_id a) \<Longrightarrow>
     find (\<lambda>a. account_id a = aid) (map f xs) = map_option f (find (\<lambda>a. account_id a = aid) xs)"
  by (induction xs) auto

lemma set_current_tenant_missing:
  "account_by_id aid d = None \<Longrightarrow> set_current_tenant aid t d = d"
proof -
  assume "account_by_id aid d = None"
  then have "\<forall>a\<in>set (accounts d). account_id a \<noteq> aid"
    by (auto simp: account_by_id_def find_None_iff)
  then have "map (\<lambda>a. if account_id a = aid then a\<lparr>current_tenant := Some t\<rparr> else a) (accounts d)
               = accounts d"
    by (induction "accounts d") (auto simp: map_idI)
  then show ?thesis
    by (simp add: set_current_tenant_def)
qed

lemma current_tenant_of_set:
  "account_by_id aid d \<noteq> None \<Longrightarrow> current_tenant_of aid (set_current_tenant aid t d) = Some t"
proof -
  assume a: "account_by_id aid d \<noteq> None"
  have "account_by_id aid (set_current_tenant aid t d)
          = map_option (\<lambda>a. if account_id a = aid then a\<lparr>current_tenant := Some t\<rparr> else a)
              (account_by_id aid d)"
    unfolding account_by_id_def set_current_tenant_def
    by (simp add: account_by_id_map)
  moreover from a obtain x where x: "account_by_id aid d = Some x" by auto
  moreover from x have "account_id x = aid"
    by (auto simp: account_by_id_def find_Some_iff)
  ultimately show ?thesis
    by (simp add: current_tenant_of_def)
qed

lemma join_ids_tenant: "t \<in> set (join_ids aid d) \<Longrightarrow> \<exists>x. tenant_by_id t d = Some x \<and> tenant_id x = t"
proof -
  assume "t \<in> set (join_ids aid d)"
  then obtain y where "y \<in> set (tenants d)" "tenant_id y = t"
    unfolding join_ids_set by blast
  then have "find (\<lambda>x. tenant_id x = t) (tenants d) \<noteq> None"
    by (auto simp: find_None_iff)
  then obtain x where x: "find (\<lambda>x. tenant_id x = t) (tenants d) = Some x" by auto
  with find_tenant_id [OF x] show ?thesis
    by (simp add: tenant_by_id_def)
qed

lemma select_first_tenant_selects:
  assumes "current_tenant_of aid d = None" and "account_by_id aid d \<noteq> None"
    and "set uti = set (join_ids aid d)"
  shows "current_tenant_of aid (select_first_tenant aid uti d)
           = (case uti of [] \<Rightarrow> None | t # rest \<Rightarrow> Some t)"
proof (cases uti)
  case Nil
  with assms(1) show ?thesis by (simp add: select_first_tenant_def)
next
  case (Cons t rest)
  with assms(3) have "t \<in> set (join_ids aid d)" by auto
  from join_ids_tenant [OF this] obtain x where "tenant_by_id t d = Some x" "tenant_id x = t"
    by blast
  with Cons assms(1,2) show ?thesis
    by (simp add: select_first_tenant_def current_tenant_of_set)
qed

lemma select_first_tenant_idem:
  assumes "set uti = set (join_ids aid d)" and "set uti' = set uti"
  shows "select_first_tenant aid uti' (select_first_tenant aid uti d) = select_first_tenant aid uti d"
proof (cases "account_by_id aid d")
  case None
  then have "\<And>u. select_first_tenant aid u d = d"
    by (simp add: select_first_tenant_def set_current_tenant_missing split: list.splits option.splits)
  then show ?thesis by simp
next
  case (Some a)
  show ?thesis
  proof (cases "current_tenant_of aid d")
    case cur: None
    show ?thesis
    proof (cases uti)
      case Nil
      with assms(2) have "uti' = []" by simp
      with Nil cur show ?thesis by (simp add: select_first_tenant_def)
    next
      case (Cons t rest)
      from select_first_tenant_selects [OF cur _ assms(1)] Some Cons
      have "current_tenant_of aid (select_first_tenant aid uti d) = Some t"
        by simp
      then show ?thesis
        by (simp add: select_first_tenant_def [of aid uti'])
    qed
  next
    case (Some t)
    then show ?thesis by (simp add: select_first_tenant_def)
  qed
qed

lemma sync_user_organizations_fold:
  assumes "organizations ui \<noteq> []"
  obtains o2t uti d' where
    "fold (sync_org aid) (organizations ui) (org_to_tenant_of (mappings d), join_ids aid d, d)
       = (o2t, uti, d')"
    and "sync_user_organizations aid ui d = select_first_tenant aid uti d'"
    and "sync_inv aid (o2t, uti, d')"
    and "extends (org_to_tenant_of (mappings d), join_ids aid d, d) (o2t, uti, d')"
    and "\<forall>org\<in>set (organizations ui). settled (o2t, uti, d') org"
proof -
  obtain o2t uti d' where f:
    "fold (sync_org aid) (organizations ui) (org_to_tenant_of (mappings d), join_ids aid d, d)
       = (o2t, uti, d')"
    by (cases "fold (sync_org aid) (organizations ui)
                 (org_to_tenant_of (mappings d), join_ids aid d, d)") auto
  have r: "sync_user_organizations aid ui d = select_first_tenant aid uti d'"
    using assms f by (simp add: sync_user_organizations_def)
  from sync_fold [OF sync_inv_start f] f r that show ?thesis
    by blast
qed

lemma sync_user_organizations_idem:
  "sync_user_organizations aid ui (sync_user_organizations aid ui d)
     = sync_user_organizations aid ui d"
proof (cases "organizations ui = []")
  case True
  then show ?thesis by (simp add: sync_user_organizations_def)
next
  case False
  from sync_user_organizations_fold [OF False, of aid d] obtain o2t uti d' where
    f: "fold (sync_org aid) (organizations ui) (org_to_tenant_of (mappings d), join_ids aid d, d)
          = (o2t, uti, d')"
    and r: "sync_user_organizations aid ui d = select_first_tenant aid uti d'"
    and i: "sync_inv aid (o2t, uti, d')"
    and x: "extends (org_to_tenant_of (mappings d), join_ids aid d, d) (o2t, uti, d')"
    and s: "\<forall>org\<in>set (organizations ui). settled (o2t, uti, d') org"
    by blast
  let ?d1 = "select_first_tenant aid uti d'"
  from i have i1: "o2t = org_to_tenant_of (mappings d')" and i2: "set uti = set (join_ids aid d')"
    by (simp_all add: sync_inv_def)
  have m1: "org_to_tenant_of (mappings ?d1) = o2t"
    by (simp add: select_first_tenant_tables i1)
  have j1: "join_ids aid ?d1 = join_ids aid d'"
    by (rule join_ids_cong) (simp_all add: select_first_tenant_tables)
  have "settled (o2t, join_ids aid ?d1, ?d1) org" if "org \<in> set (organizations ui)" for org
  proof (rule settled_cong)
    show "settled (o2t, uti, d') org"
      using s that by simp
    show "set (join_ids aid ?d1) = set uti"
      using i2 j1 by simp
    show "tenants ?d1 = tenants d'"
      by (simp add: select_first_tenant_tables)
  qed
  then have "\<forall>org\<in>set (organizations ui). settled (o2t, join_ids aid ?d1, ?d1) org"
    by simp
  then have "fold (sync_org aid) (organizations ui) (o2t, join_ids aid ?d1, ?d1)
               = (o2t, join_ids aid ?d1, ?d1)"
    by (rule sync_fold_settled)
  then have "sync_user_organizations aid ui ?d1 = select_first_tenant aid (join_ids aid ?d1) ?d1"
    using False by (simp add: sync_user_organizations_def m1)
  also have "\<dots> = ?d1"
    using i2 j1 by (intro select_first_tenant_idem) simp_all
  finally show ?thesis
    by (simp add: r)
qed

lemma sync_user_organizations_accounts:
  "current_tenant_of aid d \<noteq> None \<Longrightarrow>
     current_tenant_of aid (sync_user_organizations aid ui d) = current_tenant_of aid d"
proof (cases "organizations ui = []")
  case True
  then show ?thesis by (simp add: sync_user_organizations_def)
next
  case False
  assume c: "current_tenant_of aid d \<noteq> None"
  from sync_user_organizations_fold [OF False, of aid d] obtain o2t uti d' where
    f: "fold (sync_org aid) (organizations ui) (org_to_tenant_of (mappings d), join_ids aid d, d)
          = (o2t, uti, d')"
    and r: "sync_user_organizations aid ui d = select_first_tenant aid uti d'"
    and i: "sync_inv aid (o2t, uti, d')"
    and x: "extends (org_to_tenant_of (mappings d), join_ids aid d, d) (o2t, uti, d')"
    and s: "\<forall>org\<in>set (organizations ui). settled (o2t, uti, d') org"
    by blast
  have "current_tenant_of aid d' = current_tenant_of aid d"
    using x by (simp add: extends_def current_tenant_of_def account_by_id_def)
  with c show ?thesis
    by (simp add: r select_first_tenant_def)
qed

lemma sync_user_organizations_integrates:
  "integrates (sync_user_organizations aid ui d) = integrates d"
proof (cases "organizations ui = []")
  case True
  then show ?thesis by (simp add: sync_user_organizations_def)
next
  case False
  from sync_user_organizations_fold [OF False, of aid d] obtain o2t uti d' where
    f: "fold (sync_org aid) (organizations ui) (org_to_tenant_of (mappings d), join_ids aid d, d)
          = (o2t, uti, d')"
    and r: "sync_user_organizations aid ui d = select_first_tenant aid uti d'"
    and i: "sync_inv aid (o2t, uti, d')"
    and x: "extends (org_to_tenant_of (mappings d), join_ids aid d, d) (o2t, uti, d')"
    and s: "\<forall>org\<in>set (organizations ui). settled (o2t, uti, d') org"
    by blast
  have "integrates (select_first_tenant aid uti d') = integrates d'"
    by (simp add: select_first_tenant_def set_current_tenant_def split: list.splits option.splits)
  with x show ?thesis
    by (simp add: r extends_def)
qed

section \<open>Running the synchronization twice\<close>

text \<open>
  C2. A second run of \<^verbatim>\<open>_sync_user_organizations\<close> with the same account and the same
  organization list leaves the database of the first run as it is: no tenant, mapping or
  membership row is added, nor anything else changed. And a run leaves the current tenant
  of an account that has one as it was.
\<close>

theorem sync_twice:
  "sync_user_organizations aid ui (sync_user_organizations aid ui d)
     = sync_user_organizations aid ui d
   \<and> (current_tenant_of aid d \<noteq> None \<longrightarrow>
        current_tenant_of aid (sync_user_organizations aid ui d) = current_tenant_of aid d)"
  by (simp add: sync_user_organizations_idem sync_user_organizations_accounts)

theorem sync_twice_witness:
  "current_tenant_of 7 acme_db \<noteq> None
   \<and> tenants (sync_user_organizations 7 ann acme_db) \<noteq> tenants acme_db
   \<and> sync_user_organizations 7 ann (sync_user_organizations 7 ann acme_db)
       = sync_user_organizations 7 ann acme_db
   \<and> current_tenant_of 7 (sync_user_organizations 7 ann acme_db) = Some 1"
proof -
  have a: "current_tenant_of 7 acme_db = Some 1"
    by code_simp
  have b: "tenants (sync_user_organizations 7 ann acme_db) \<noteq> tenants acme_db"
    by code_simp
  show ?thesis
    using a b sync_twice [of 7 ann acme_db] by simp
qed

section \<open>The current tenant after a synchronization\<close>

text \<open>
  C6. The claim, and the comment at line 322 ("if the user has no current workspace, set
  the first organization as the current workspace"): after the synchronization, an account
  that had no current tenant has as current tenant the first tenant level it was attached
  to during this synchronization. The code at this input: Ann is a member of tenant 1,
  which no organization maps to, and has no current tenant; her identity names "Acme".
  The synchronization maps "Acme" to the new tenant 2 and attaches her to tenant 2 and to
  nothing else, yet the tenant it selects as current is tenant 1, the first entry of
  \<^verbatim>\<open>user_tenant_ids\<close>, which lines 195-196 filled with her earlier memberships.
\<close>

theorem sync_selects_earlier_membership:
  "current_tenant_of 7 (member_db ACTIVE) = None
   \<and> join_ids 7 (member_db ACTIVE) = [1]
   \<and> organizations ann = [''Acme'']
   \<and> org_to_tenant_of (mappings (sync_user_organizations 7 ann (member_db ACTIVE))) ''Acme''
       = Some 2
   \<and> joins (sync_user_organizations 7 ann (member_db ACTIVE))
       = joins (member_db ACTIVE)
         @ [\<lparr>join_tenant_id = 2, join_account_id = 7, join_role = ''owner''\<rparr>]
   \<and> current_tenant_of 7 (sync_user_organizations 7 ann (member_db ACTIVE)) = Some 1"
  by code_simp

text \<open>
  What lines 323-326 select in general, for a non-empty organization list and an account
  without a current tenant: the first entry of \<^verbatim>\<open>user_tenant_ids\<close>, which is the first
  tenant the account was a member of before the call or, when it was a member of none,
  the first tenant level attached during the call.
\<close>

lemma first_entry_selected:
  assumes "organizations ui \<noteq> []" and "account_by_id aid d \<noteq> None"
    and "current_tenant_of aid d = None"
  shows "\<exists>js. joins (sync_user_organizations aid ui d) = joins d @ js
           \<and> current_tenant_of aid (sync_user_organizations aid ui d)
               = (case join_ids aid d @ map join_tenant_id js of
                    [] \<Rightarrow> None
                  | t # rest \<Rightarrow> Some t)"
proof -
  from sync_user_organizations_fold [OF assms(1), of aid d] obtain o2t uti d' where
    f: "fold (sync_org aid) (organizations ui) (org_to_tenant_of (mappings d), join_ids aid d, d)
          = (o2t, uti, d')"
    and r: "sync_user_organizations aid ui d = select_first_tenant aid uti d'"
    and i: "sync_inv aid (o2t, uti, d')"
    and x: "extends (org_to_tenant_of (mappings d), join_ids aid d, d) (o2t, uti, d')"
    and s: "\<forall>org\<in>set (organizations ui). settled (o2t, uti, d') org"
    by blast
  from x obtain js where js: "joins d' = joins d @ js" "uti = join_ids aid d @ map join_tenant_id js"
    and acc: "accounts d' = accounts d"
    by (auto simp: extends_def)
  from acc assms(2,3) have a: "account_by_id aid d' \<noteq> None" and c: "current_tenant_of aid d' = None"
    by (simp_all add: current_tenant_of_def account_by_id_def)
  from i have "set uti = set (join_ids aid d')"
    by (simp add: sync_inv_def)
  from select_first_tenant_selects [OF c a this]
  have "current_tenant_of aid (select_first_tenant aid uti d')
          = (case join_ids aid d @ map join_tenant_id js of [] \<Rightarrow> None | t # rest \<Rightarrow> Some t)"
    by (simp add: js(2))
  moreover have "joins (select_first_tenant aid uti d') = joins d @ js"
    by (simp add: select_first_tenant_tables js(1))
  ultimately show ?thesis
    unfolding r by blast
qed

section \<open>Creating the tenants of a path\<close>













section \<open>The organization "Acme/dept-team"\<close>



section \<open>An organization that ends with the separator\<close>





















section \<open>Every successful account generation links and synchronizes\<close>

lemma link_account_integrate_row:
  "\<lparr>integrate_provider = provider, integrate_open_id = open_id, integrate_account_id = aid\<rparr>
     \<in> set (integrates (link_account_integrate provider open_id aid d))"
  by (simp add: link_account_integrate_def Let_def)

lemma generate_account_success:
  assumes "generate_account e provider ui d = (Inr aid, d')"
  shows "\<exists>d0. d' = sync_user_organizations aid ui
                      (link_account_integrate provider (user_id ui) aid d0)"
  using assms
  by (auto simp: generate_account_def link_and_sync_def
      split: sum.splits option.splits if_splits prod.splits)

text \<open>
  C9. Whenever \<^verbatim>\<open>_generate_account\<close> returns an account, whether found by its provider
  link, found by its email or newly registered, the database it leaves is the result of
  \<^verbatim>\<open>link_account_integrate\<close> for (provider, external id) followed by
  \<^verbatim>\<open>_sync_user_organizations\<close>: the link row is there, and the synchronization has
  nothing left to do.
\<close>

theorem generate_account_links_and_syncs:
  assumes "generate_account e provider ui d = (Inr aid, d')"
  shows "(\<exists>d0. d' = sync_user_organizations aid ui
                       (link_account_integrate provider (user_id ui) aid d0))
         \<and> \<lparr>integrate_provider = provider, integrate_open_id = user_id ui,
             integrate_account_id = aid\<rparr> \<in> set (integrates d')
         \<and> sync_user_organizations aid ui d' = d'"
proof -
  from generate_account_success [OF assms] obtain d0 where
    d': "d' = sync_user_organizations aid ui (link_account_integrate provider (user_id ui) aid d0)"
    by (elim exE)
  have "\<lparr>integrate_provider = provider, integrate_open_id = user_id ui,
         integrate_account_id = aid\<rparr> \<in> set (integrates d')"
    unfolding d' by (simp add: sync_user_organizations_integrates link_account_integrate_row)
  moreover have "sync_user_organizations aid ui d' = d'"
    unfolding d' by (rule sync_user_organizations_idem)
  ultimately show ?thesis
    using generate_account_success [OF assms] by simp
qed

theorem generate_account_links_and_syncs_witness:
  "generate_account casdoor_env ''casdoor'' ann (member_db ACTIVE)
     = (Inr 7, snd (generate_account casdoor_env ''casdoor'' ann (member_db ACTIVE)))
   \<and> get_by_openid ''casdoor'' (user_id ann) (member_db ACTIVE) = None
   \<and> \<lparr>integrate_provider = ''casdoor'', integrate_open_id = user_id ann,
       integrate_account_id = 7\<rparr>
       \<in> set (integrates (snd (generate_account casdoor_env ''casdoor'' ann (member_db ACTIVE))))
   \<and> sync_user_organizations 7 ann
        (snd (generate_account casdoor_env ''casdoor'' ann (member_db ACTIVE)))
       = snd (generate_account casdoor_env ''casdoor'' ann (member_db ACTIVE))"
proof -
  have g: "generate_account casdoor_env ''casdoor'' ann (member_db ACTIVE)
             = (Inr 7, snd (generate_account casdoor_env ''casdoor'' ann (member_db ACTIVE)))"
    by code_simp
  have o: "get_by_openid ''casdoor'' (user_id ann) (member_db ACTIVE) = None"
    by code_simp
  show ?thesis
    using g o generate_account_links_and_syncs [OF g] by simp
qed

end
